theory Spec2Isabelle
  imports Main "HOL-Library.FSet"
begin

section \<open>Data model (crawler.py, detectors/base.py)\<close>

datatype Severity = CRITICAL | HIGH | MEDIUM | LOW | INFO

text \<open>The \<open>.value\<close> of the string-valued enum.\<close>

fun severity_value :: "Severity \<Rightarrow> string" where
  "severity_value CRITICAL = ''critical''"
| "severity_value HIGH = ''high''"
| "severity_value MEDIUM = ''medium''"
| "severity_value LOW = ''low''"
| "severity_value INFO = ''info''"

record Bug =
  url :: string
  category :: string
  severity :: Severity
  title :: string
  description :: string
  selector :: "string option"
  screenshot_path :: "string option"
  extra :: "(string \<times> string) list"

record CrawlResult =
  start_url :: string
  pages_visited :: nat
  bugs :: "Bug list"
  errors :: "string list"
  started_at :: string
  finished_at :: string

subsection \<open>Strings\<close>

text \<open>\<open>str(n)\<close> for a Python int, in decimal.\<close>

fun str_nat :: "nat \<Rightarrow> string" where
  "str_nat n =
     (if n < 10 then [''0123456789'' ! n]
      else str_nat (n div 10) @ [''0123456789'' ! (n mod 10)])"

declare str_nat.simps [simp del]

definition str_int :: "int \<Rightarrow> string" where
  "str_int i = (if i < 0 then CHR ''-'' # str_nat (nat (- i)) else str_nat (nat i))"

text \<open>\<open>s.rstrip("/")\<close> removes every trailing slash; \<open>s.split("#")[0]\<close> is the
  part of \<open>s\<close> before its first \<open>#\<close>.\<close>

definition rstrip_slash :: "string \<Rightarrow> string" where
  "rstrip_slash s = rev (dropWhile (\<lambda>c. c = CHR ''/'') (rev s))"

definition split_hash_0 :: "string \<Rightarrow> string" where
  "split_hash_0 s = takeWhile (\<lambda>c. c \<noteq> CHR ''#'') s"

section \<open>The page automation handle and the site\<close>

text \<open>
  What the browser page answers at a URL. \<open>goto\<close> is the outcome of
  \<open>page.goto\<close> followed by \<open>page.wait_for_timeout\<close>: \<open>Inl cause\<close> when one
  of them raises (\<open>cause\<close> is \<open>str(e)\<close>), \<open>Inr None\<close> when navigation returns no
  response, \<open>Inr (Some status)\<close> otherwise. \<open>fired\<close> are the console and
  pageerror events the page emits while it is being visited (they reach the listeners
  whether or not the navigation succeeds). \<open>hrefs\<close> is the answer of
  \<open>eval_on_selector_all("a[href]", ...)\<close>, \<open>None\<close> when it raises.
\<close>

datatype page_event = Console string string | PageError string

record page_load =
  goto :: "string + int option"
  fired :: "page_event list"
  hrefs :: "string list option"

text \<open>
  Everything outside the crawl engine that a run depends on: the site, what the
  built-in page inspector named \<open>n\<close> finds on the page loaded at \<open>u\<close>
  (\<open>inspect n u\<close>: \<open>Inl msg\<close> when its \<open>detect\<close> raises an \<open>Exception\<close>,
  \<open>Inr bugs\<close> when it returns), the library function \<open>urlparse(u).netloc\<close>
  (\<open>None\<close> when \<open>urlparse\<close> raises \<open>ValueError\<close>), the order in which
  \<open>list(set(links))\<close> enumerates a set of strings (it depends on the interpreter's
  string hashing), and the two readings of the clock.
\<close>

record world =
  site :: "string \<Rightarrow> page_load"
  inspect :: "string \<Rightarrow> string \<Rightarrow> string + Bug list"
  netloc :: "string \<Rightarrow> string option"
  set_order :: "string list \<Rightarrow> string list"
  now_start :: string
  now_end :: string

text \<open>What \<open>list(set(xs))\<close> guarantees: the elements of \<open>xs\<close>, each once.\<close>

definition valid_set_order :: "(string list \<Rightarrow> string list) \<Rightarrow> bool" where
  "valid_set_order f = (\<forall>xs. distinct (f xs) \<and> set (f xs) = set xs)"

section \<open>Detectors (detectors/base.py, detectors/console\_errors.py)\<close>

text \<open>
  A detector instance. \<open>ConsoleErrorDetector errs\<close> carries its buffer
  \<open>self._errors\<close> of (type, text) entries. The other detectors of the repository keep
  no state of their own and inspect the loaded page through the browser; such a
  detector is its \<open>name\<close> and what \<open>detect\<close> does on the page loaded at a URL:
  \<open>Inl msg\<close> when it raises an \<open>Exception\<close> (\<open>msg\<close> is \<open>str(e)\<close>), \<open>Inr bugs\<close>
  when it returns.
\<close>

datatype BugDetector =
    ConsoleErrorDetector "(string \<times> string) list"
  | PageDetector string "string \<Rightarrow> string + Bug list"

fun name :: "BugDetector \<Rightarrow> string" where
  "name (ConsoleErrorDetector errs) = ''console_errors''"
| "name (PageDetector n f) = n"

text \<open>\<open>det = cls()\<close>: a fresh instance has an empty buffer.\<close>

fun new_instance :: "BugDetector \<Rightarrow> BugDetector" where
  "new_instance (ConsoleErrorDetector errs) = ConsoleErrorDetector []"
| "new_instance (PageDetector n f) = PageDetector n f"

text \<open>The listeners registered by \<open>attach\<close>: \<open>_on_console\<close> and \<open>_on_pageerror\<close>.\<close>

fun on_event :: "page_event \<Rightarrow> BugDetector \<Rightarrow> BugDetector" where
  "on_event (Console ty txt) (ConsoleErrorDetector errs) =
     (if ty = ''error'' then ConsoleErrorDetector (errs @ [(''console.error'', txt)])
      else ConsoleErrorDetector errs)"
| "on_event (PageError e) (ConsoleErrorDetector errs) =
     ConsoleErrorDetector (errs @ [(''unhandled_exception'', e)])"
| "on_event ev (PageDetector n f) = PageDetector n f"

definition deliver :: "page_event list \<Rightarrow> BugDetector list \<Rightarrow> BugDetector list" where
  "deliver evs dets = map (\<lambda>d. foldl (\<lambda>d' ev. on_event ev d') d evs) dets"

definition console_bug :: "string \<Rightarrow> string \<times> string \<Rightarrow> Bug" where
  "console_bug u err =
     \<lparr>url = u, category = ''javascript'',
      severity = (if fst err = ''unhandled_exception'' then HIGH else MEDIUM),
      title = ''JS '' @ fst err, description = take 500 (snd err),
      selector = None, screenshot_path = None, extra = []\<rparr>"

text \<open>\<open>detect\<close>: the outcome and the instance afterwards.\<close>

fun detect :: "BugDetector \<Rightarrow> string \<Rightarrow> (string + Bug list) \<times> BugDetector" where
  "detect (ConsoleErrorDetector errs) u =
     (Inr (map (console_bug u) errs), ConsoleErrorDetector [])"
| "detect (PageDetector n f) u = (f u, PageDetector n f)"

section \<open>The crawler (crawler.py)\<close>

text \<open>
  The state of a \<open>VibeCrawler\<close> during \<open>run\<close>. \<open>detectors\<close> are the instances that
  \<open>run\<close> creates and hands to every \<open>_crawl_page\<close>; \<open>visiting\<close> is the sequence of
  URLs printed by the \<open>Visiting\<close> line at the head of \<open>_crawl_page\<close>.
\<close>

record VibeCrawler =
  seed_url :: string
  max_pages :: int
  detectors :: "BugDetector list"
  visited :: "string fset"
  queue :: "string list"
  result :: CrawlResult
  visiting :: "string list"

text \<open>The built-in detectors, in the order of \<open>DEFAULT_DETECTORS\<close>.\<close>

definition DEFAULT_DETECTORS :: "world \<Rightarrow> BugDetector list" where
  "DEFAULT_DETECTORS w =
     [ConsoleErrorDetector [],
      PageDetector ''broken_links'' (inspect w ''broken_links''),
      PageDetector ''overflow'' (inspect w ''overflow''),
      PageDetector ''accessibility'' (inspect w ''accessibility''),
      PageDetector ''meta_seo'' (inspect w ''meta_seo''),
      PageDetector ''dead_clicks'' (inspect w ''dead_clicks''),
      PageDetector ''mobile_responsiveness'' (inspect w ''mobile_responsiveness'')]"

text \<open>\<open>detectors or DEFAULT_DETECTORS\<close>: an empty list selects the built-in ones.\<close>

definition detector_classes :: "world \<Rightarrow> BugDetector list \<Rightarrow> BugDetector list" where
  "detector_classes w dets = (case dets of [] \<Rightarrow> DEFAULT_DETECTORS w | d # ds \<Rightarrow> dets)"

text \<open>\<open>__init__\<close>, given the detectors that \<open>run\<close> is to instantiate.\<close>

definition init :: "string \<Rightarrow> int \<Rightarrow> BugDetector list \<Rightarrow> VibeCrawler" where
  "init start maxp dets =
     \<lparr>seed_url = start, max_pages = maxp, detectors = dets, visited = {||}, queue = [],
      result = \<lparr>start_url = start, pages_visited = 0, bugs = [], errors = [],
                started_at = [], finished_at = []\<rparr>,
      visiting = []\<rparr>"

text \<open>\<open>_same_origin\<close>; \<open>None\<close> when \<open>urlparse\<close> raises.\<close>

definition same_origin :: "world \<Rightarrow> string \<Rightarrow> string \<Rightarrow> bool option" where
  "same_origin w start u =
     (case netloc w u of
        None \<Rightarrow> None
      | Some a \<Rightarrow> (case netloc w start of None \<Rightarrow> None | Some b \<Rightarrow> Some (a = b)))"

text \<open>The loop of \<open>_discover_links\<close> over \<open>hrefs\<close>, with \<open>links\<close> as accumulator.\<close>

fun collect_links ::
  "world \<Rightarrow> string \<Rightarrow> string fset \<Rightarrow> string list \<Rightarrow> string list \<Rightarrow> string list option"
where
  "collect_links w start vis [] links = Some links"
| "collect_links w start vis (href # rest) links =
     (let clean = rstrip_slash (split_hash_0 href) in
      if clean = [] then collect_links w start vis rest links
      else (case same_origin w start clean of
              None \<Rightarrow> None
            | Some so \<Rightarrow>
                if so \<and> clean |\<notin>| vis then collect_links w start vis rest (links @ [clean])
                else collect_links w start vis rest links))"

text \<open>\<open>_discover_links\<close>; \<open>None\<close> when anything in it raises.\<close>

definition discover_links :: "world \<Rightarrow> VibeCrawler \<Rightarrow> page_load \<Rightarrow> string list option" where
  "discover_links w c pg =
     (case hrefs pg of
        None \<Rightarrow> None
      | Some hs \<Rightarrow>
          (case collect_links w (seed_url c) (visited c) hs [] of
             None \<Rightarrow> None
           | Some links \<Rightarrow> Some (set_order w links)))"

text \<open>The loop over \<open>new_links\<close> at the end of \<open>_crawl_page\<close>.\<close>

fun offer :: "string list \<Rightarrow> VibeCrawler \<Rightarrow> VibeCrawler" where
  "offer [] c = c"
| "offer (link # rest) c =
     offer rest
       (if link |\<notin>| visited c \<and> link \<notin> set (queue c) then c\<lparr>queue := queue c @ [link]\<rparr>
        else c)"

definition detector_error :: "BugDetector \<Rightarrow> string \<Rightarrow> string \<Rightarrow> string" where
  "detector_error d u e = ''Detector '' @ name d @ '' failed on '' @ u @ '': '' @ e"

text \<open>The loop over the detectors in \<open>_crawl_page\<close>: the instances afterwards and
  the result.\<close>

fun run_detectors ::
  "string \<Rightarrow> BugDetector list \<Rightarrow> CrawlResult \<Rightarrow> BugDetector list \<times> CrawlResult"
where
  "run_detectors u [] r = ([], r)"
| "run_detectors u (d # ds) r =
     (case detect d u of
        (Inr bs, d') \<Rightarrow>
          (case run_detectors u ds (r\<lparr>bugs := bugs r @ bs\<rparr>) of
             (ds', r') \<Rightarrow> (d' # ds', r'))
      | (Inl e, d') \<Rightarrow>
          (case run_detectors u ds (r\<lparr>errors := errors r @ [detector_error d u e]\<rparr>) of
             (ds', r') \<Rightarrow> (d' # ds', r')))"

definition http_bug :: "string \<Rightarrow> int \<Rightarrow> Bug" where
  "http_bug u st =
     \<lparr>url = u, category = ''http'', severity = HIGH, title = ''HTTP '' @ str_int st,
      description = ''Page returned status '' @ str_int st,
      selector = None, screenshot_path = None, extra = []\<rparr>"

text \<open>\<open>if resp and resp.status >= 400\<close>: the status is read only from a response
  that is there.\<close>

definition status_check :: "string \<Rightarrow> int option \<Rightarrow> CrawlResult \<Rightarrow> CrawlResult" where
  "status_check u resp r =
     (case resp of
        None \<Rightarrow> r
      | Some st \<Rightarrow> if st \<ge> 400 then r\<lparr>bugs := bugs r @ [http_bug u st]\<rparr> else r)"

definition load_error :: "string \<Rightarrow> string \<Rightarrow> string" where
  "load_error u e = ''Failed to load '' @ u @ '': '' @ e"

text \<open>\<open>_crawl_page\<close>.\<close>

definition crawl_page :: "world \<Rightarrow> VibeCrawler \<Rightarrow> string \<Rightarrow> VibeCrawler" where
  "crawl_page w c u =
     (let pg = site w u;
          c1 = c\<lparr>visiting := visiting c @ [u],
                 detectors := deliver (fired pg) (detectors c)\<rparr>
      in case goto pg of
           Inl e \<Rightarrow> c1\<lparr>result := (result c1)\<lparr>errors := errors (result c1) @ [load_error u e]\<rparr>\<rparr>
         | Inr resp \<Rightarrow>
             (case run_detectors u (detectors c1) (status_check u resp (result c1)) of
                (ds, r) \<Rightarrow>
                  (let c2 = c1\<lparr>detectors := ds, result := r\<rparr>
                   in case discover_links w c2 pg of
                        None \<Rightarrow> c2
                      | Some new_links \<Rightarrow> offer new_links c2)))"

text \<open>
  One turn of the \<open>while\<close> loop of \<open>run\<close>. \<open>dequeue\<close> is \<open>pop(0)\<close> with the test
  and the update of \<open>_visited\<close>: it answers the URL to crawl, or \<open>None\<close> for
  \<open>continue\<close>.
\<close>

definition loop_cond :: "VibeCrawler \<Rightarrow> bool" where
  "loop_cond c = (queue c \<noteq> [] \<and> int (fcard (visited c)) < max_pages c)"

definition dequeue :: "VibeCrawler \<Rightarrow> string option \<times> VibeCrawler" where
  "dequeue c =
     (case queue c of
        [] \<Rightarrow> (None, c)
      | u # rest \<Rightarrow>
          if u |\<in>| visited c then (None, c\<lparr>queue := rest\<rparr>)
          else (Some u, c\<lparr>queue := rest, visited := finsert u (visited c)\<rparr>))"

definition loop_step :: "world \<Rightarrow> VibeCrawler \<Rightarrow> VibeCrawler" where
  "loop_step w c =
     (if loop_cond c then
        (case dequeue c of (None, c1) \<Rightarrow> c1 | (Some u, c1) \<Rightarrow> crawl_page w c1 u)
      else c)"

subsection \<open>The loop terminates\<close>

lemma offer_fields [simp]:
  "visited (offer ls c) = visited c"
  "max_pages (offer ls c) = max_pages c"
  "seed_url (offer ls c) = seed_url c"
  "detectors (offer ls c) = detectors c"
  "result (offer ls c) = result c"
  "visiting (offer ls c) = visiting c"
  by (induction ls arbitrary: c) simp_all

lemma crawl_page_visited [simp]: "visited (crawl_page w c u) = visited c"
  by (simp add: crawl_page_def Let_def split: sum.splits prod.splits option.splits)

lemma crawl_page_max_pages [simp]: "max_pages (crawl_page w c u) = max_pages c"
  by (simp add: crawl_page_def Let_def split: sum.splits prod.splits option.splits)

lemma crawl_page_seed_url [simp]: "seed_url (crawl_page w c u) = seed_url c"
  by (simp add: crawl_page_def Let_def split: sum.splits prod.splits option.splits)

lemma loop_step_max_pages [simp]: "max_pages (loop_step w c) = max_pages c"
  by (auto simp: loop_step_def dequeue_def split: list.splits prod.splits option.splits if_splits)

lemma loop_step_seed_url [simp]: "seed_url (loop_step w c) = seed_url c"
  by (auto simp: loop_step_def dequeue_def split: list.splits prod.splits option.splits if_splits)

text \<open>The pages the budget still allows.\<close>

definition budget :: "VibeCrawler \<Rightarrow> nat" where
  "budget c = nat (max_pages c - int (fcard (visited c)))"

lemma loop_step_decreases:
  assumes "loop_cond c"
  shows "budget (loop_step w c) < budget c
         \<or> (budget (loop_step w c) = budget c
            \<and> length (queue (loop_step w c)) < length (queue c))"
proof (cases "queue c")
  case Nil
  with assms show ?thesis by (simp add: loop_cond_def)
next
  case (Cons u rest)
  show ?thesis
  proof (cases "u |\<in>| visited c")
    case True
    with Cons assms show ?thesis
      by (simp add: loop_step_def dequeue_def budget_def)
  next
    case False
    with Cons assms show ?thesis
      by (simp add: loop_step_def dequeue_def budget_def loop_cond_def fcard_finsert_if)
  qed
qed

text \<open>The \<open>while\<close> loop of \<open>run\<close>.\<close>

function run_loop :: "world \<Rightarrow> VibeCrawler \<Rightarrow> VibeCrawler" where
  "run_loop w c = (if loop_cond c then run_loop w (loop_step w c) else c)"
  by pat_completeness auto
termination
proof (relation "measures [\<lambda>(w, c). budget c, \<lambda>(w, c). length (queue c)]")
  show "wf (measures [\<lambda>(w, c). budget c, \<lambda>(w, c). length (queue c)])" by simp
next
  fix w c assume "loop_cond c"
  from loop_step_decreases [OF this, of w]
  show "((w, loop_step w c), (w, c))
          \<in> measures [\<lambda>(w, c). budget c, \<lambda>(w, c). length (queue c)]"
    by auto
qed

declare run_loop.simps [simp del]

text \<open>
  \<open>run\<close>, from a crawler as \<open>__init__\<close> leaves it: the instances are created, the
  seed is appended to the queue, the loop runs, the result is finalised.
  \<open>enqueue_seed\<close> is the state at the head of the loop; \<open>run_state\<close> is the
  crawler when \<open>run\<close> returns and \<open>run\<close> the \<open>CrawlResult\<close> it returns.
\<close>

definition enqueue_seed :: "world \<Rightarrow> string \<Rightarrow> int \<Rightarrow> BugDetector list \<Rightarrow> VibeCrawler" where
  "enqueue_seed w start maxp dets =
     (let c0 = init start maxp (map new_instance (detector_classes w dets));
          c1 = c0\<lparr>result := (result c0)\<lparr>started_at := now_start w\<rparr>\<rparr>
      in c1\<lparr>queue := queue c1 @ [rstrip_slash start]\<rparr>)"

definition run_state :: "world \<Rightarrow> string \<Rightarrow> int \<Rightarrow> BugDetector list \<Rightarrow> VibeCrawler" where
  "run_state w start maxp dets =
     (let c = run_loop w (enqueue_seed w start maxp dets)
      in c\<lparr>result := (result c)\<lparr>pages_visited := fcard (visited c),
                                 finished_at := now_end w\<rparr>\<rparr>)"

definition run :: "world \<Rightarrow> string \<Rightarrow> int \<Rightarrow> BugDetector list \<Rightarrow> CrawlResult" where
  "run w start maxp dets = result (run_state w start maxp dets)"

section \<open>The JSON report (reporter.py)\<close>

text \<open>A dict with string keys, in insertion order: \<open>d.get(k, default)\<close> and
  \<open>d[k] = v\<close>.\<close>

fun dict_get :: "(string \<times> nat) list \<Rightarrow> string \<Rightarrow> nat \<Rightarrow> nat" where
  "dict_get [] k dflt = dflt"
| "dict_get ((k', v) # kvs) k dflt = (if k' = k then v else dict_get kvs k dflt)"

fun dict_set :: "(string \<times> nat) list \<Rightarrow> string \<Rightarrow> nat \<Rightarrow> (string \<times> nat) list" where
  "dict_set [] k v = [(k, v)]"
| "dict_set ((k', v') # kvs) k v =
     (if k' = k then (k', v) # kvs else (k', v') # dict_set kvs k v)"

definition dict_values_sum :: "(string \<times> nat) list \<Rightarrow> nat" where
  "dict_values_sum d = sum_list (map snd d)"

record Summary =
  total_bugs :: nat
  by_severity :: "(string \<times> nat) list"
  by_category :: "(string \<times> nat) list"

record Report =
  tool :: string
  json_start_url :: string
  json_pages_visited :: nat
  json_started_at :: string
  json_finished_at :: string
  summary :: Summary
  json_bugs :: "Bug list"
  json_errors :: "string list"

text \<open>The body of the loop over \<open>result.bugs\<close> in \<open>generate_json_report\<close>.\<close>

definition add_bug :: "Report \<Rightarrow> Bug \<Rightarrow> Report" where
  "add_bug data bug =
     (let s = summary data;
          sev = severity_value (severity bug);
          s1 = s\<lparr>by_severity := dict_set (by_severity s) sev (dict_get (by_severity s) sev 0 + 1)\<rparr>;
          s2 = s1\<lparr>by_category :=
                    dict_set (by_category s1) (category bug)
                      (dict_get (by_category s1) (category bug) 0 + 1)\<rparr>
      in data\<lparr>json_bugs := json_bugs data @ [bug], summary := s2\<rparr>)"

text \<open>The dict that \<open>generate_json_report\<close> writes and returns.\<close>

definition generate_json_report :: "CrawlResult \<Rightarrow> Report" where
  "generate_json_report r =
     foldl add_bug
       \<lparr>tool = ''Vibe Crawler'', json_start_url = start_url r,
        json_pages_visited = pages_visited r, json_started_at = started_at r,
        json_finished_at = finished_at r,
        summary = \<lparr>total_bugs = length (bugs r), by_severity = [], by_category = []\<rparr>,
        json_bugs = [], json_errors = errors r\<rparr>
       (bugs r)"

section \<open>The report counts every bug once\<close>

lemma dict_bump_sum:
  "dict_values_sum (dict_set d k (Suc (dict_get d k 0))) = Suc (dict_values_sum d)"
  by (induction d) (auto simp: dict_values_sum_def)

lemma add_bug_summary:
  "total_bugs (summary (add_bug data b)) = total_bugs (summary data)"
  "dict_values_sum (by_severity (summary (add_bug data b))) =
     Suc (dict_values_sum (by_severity (summary data)))"
  "dict_values_sum (by_category (summary (add_bug data b))) =
     Suc (dict_values_sum (by_category (summary data)))"
  by (simp_all add: add_bug_def Let_def dict_bump_sum)

lemma foldl_add_bug_summary:
  "total_bugs (summary (foldl add_bug data bs)) = total_bugs (summary data)"
  "dict_values_sum (by_severity (summary (foldl add_bug data bs))) =
     dict_values_sum (by_severity (summary data)) + length bs"
  "dict_values_sum (by_category (summary (foldl add_bug data bs))) =
     dict_values_sum (by_category (summary data)) + length bs"
  by (induction bs arbitrary: data) (simp_all add: add_bug_summary)

text \<open>
  C9. For a \<open>CrawlResult\<close> with N bugs, the report has \<open>summary.total_bugs = N\<close>, and
  the values of \<open>summary.by_severity\<close> and of \<open>summary.by_category\<close> each sum to N.
\<close>

theorem json_report_counts:
  "total_bugs (summary (generate_json_report r)) = length (bugs r)
   \<and> dict_values_sum (by_severity (summary (generate_json_report r))) = length (bugs r)
   \<and> dict_values_sum (by_category (summary (generate_json_report r))) = length (bugs r)"
  unfolding generate_json_report_def foldl_add_bug_summary
  by (simp add: dict_values_sum_def)

section \<open>One page visit\<close>

text \<open>
  Vocabulary for the statements about \<open>_crawl_page\<close>. \<open>listening w c u\<close> are the
  detector instances at the moment \<open>detect\<close> is first called on page \<open>u\<close>: the
  listeners have received the page's events. \<open>raises u d\<close> says that \<open>d.detect\<close>
  raises on \<open>u\<close>; \<open>detector_errors\<close> is one error entry for each detector that
  raises, and \<open>detector_bugs\<close> the bugs returned by the others, both in the order of
  the detectors.
\<close>

definition listening :: "world \<Rightarrow> VibeCrawler \<Rightarrow> string \<Rightarrow> BugDetector list" where
  "listening w c u = deliver (fired (site w u)) (detectors c)"

definition raises :: "string \<Rightarrow> BugDetector \<Rightarrow> bool" where
  "raises u d = isl (fst (detect d u))"

definition detector_errors :: "string \<Rightarrow> BugDetector list \<Rightarrow> string list" where
  "detector_errors u ds =
     map (\<lambda>d. detector_error d u (projl (fst (detect d u)))) (filter (raises u) ds)"

definition detector_bugs :: "string \<Rightarrow> BugDetector list \<Rightarrow> Bug list" where
  "detector_bugs u ds =
     concat (map (\<lambda>d. projr (fst (detect d u))) (filter (\<lambda>d. \<not> raises u d) ds))"

text \<open>What one detector's outcome does to the result.\<close>

definition record_outcome :: "string \<Rightarrow> BugDetector \<Rightarrow> CrawlResult \<Rightarrow> CrawlResult" where
  "record_outcome u d r =
     (case fst (detect d u) of
        Inr bs \<Rightarrow> r\<lparr>bugs := bugs r @ bs\<rparr>
      | Inl e \<Rightarrow> r\<lparr>errors := errors r @ [detector_error d u e]\<rparr>)"

lemma run_detectors_Cons:
  "run_detectors u (d # ds) r =
     (snd (detect d u) # fst (run_detectors u ds (record_outcome u d r)),
      snd (run_detectors u ds (record_outcome u d r)))"
  by (simp add: record_outcome_def split: prod.splits sum.splits)

lemma run_detectors_result:
  "snd (run_detectors u ds r) =
     r\<lparr>bugs := bugs r @ detector_bugs u ds, errors := errors r @ detector_errors u ds\<rparr>"
proof (induction ds arbitrary: r)
  case Nil
  show ?case by (simp add: detector_bugs_def detector_errors_def)
next
  case (Cons d ds)
  show ?case
    unfolding run_detectors_Cons snd_conv Cons
    by (simp add: record_outcome_def detector_bugs_def detector_errors_def raises_def
        split: sum.splits)
qed

lemma run_detectors_instances:
  "fst (run_detectors u ds r) = map (\<lambda>d. snd (detect d u)) ds"
proof (induction ds arbitrary: r)
  case Nil
  show ?case by simp
next
  case (Cons d ds)
  show ?case
    unfolding run_detectors_Cons fst_conv Cons by simp
qed

lemma crawl_page_failed:
  assumes "goto (site w u) = Inl e"
  shows "crawl_page w c u =
    c\<lparr>visiting := visiting c @ [u], detectors := listening w c u,
      result := (result c)\<lparr>errors := errors (result c) @ [load_error u e]\<rparr>\<rparr>"
  using assms by (simp add: crawl_page_def Let_def listening_def)

lemma crawl_page_loaded_result:
  assumes "goto (site w u) = Inr resp"
  shows "result (crawl_page w c u) =
    snd (run_detectors u (listening w c u) (status_check u resp (result c)))"
    and "detectors (crawl_page w c u) =
    fst (run_detectors u (listening w c u) (status_check u resp (result c)))"
  using assms
  by (simp_all add: crawl_page_def Let_def listening_def split: prod.splits option.splits)

lemma crawl_page_visiting [simp]: "visiting (crawl_page w c u) = visiting c @ [u]"
  by (simp add: crawl_page_def Let_def split: sum.splits prod.splits option.splits)

lemma run_loop_step: "loop_cond c \<Longrightarrow> run_loop w c = run_loop w (loop_step w c)"
  by (subst run_loop.simps) simp

subsection \<open>A small site for the examples\<close>

text \<open>
  The seed page links to \<open>/x\<close> (twice, once with a trailing slash), to \<open>/y\<close> (with a
  slash and a fragment) and to another host. \<open>/x\<close> throws a script error and then
  times out; \<open>/y\<close> answers 404 and logs a console error; \<open>/n\<close> loads without a
  response object.
\<close>

definition demo_site :: "string \<Rightarrow> page_load" where
  "demo_site u =
     (if u = ''http://a.com'' then
        \<lparr>goto = Inr (Some 200), fired = [],
         hrefs = Some [''http://a.com/x'', ''http://a.com/y/#top'', ''http://b.org/z'',
                       ''http://a.com/x/'']\<rparr>
      else if u = ''http://a.com/x'' then
        \<lparr>goto = Inl ''Timeout'', fired = [PageError ''boom''], hrefs = None\<rparr>
      else if u = ''http://a.com/y'' then
        \<lparr>goto = Inr (Some 404), fired = [Console ''error'' ''oops''],
         hrefs = Some [''http://a.com/n'']\<rparr>
      else if u = ''http://a.com/n'' then
        \<lparr>goto = Inr None, fired = [], hrefs = Some []\<rparr>
      else \<lparr>goto = Inr (Some 200), fired = [], hrefs = Some []\<rparr>)"

text \<open>The host of an \<open>http://\<close> URL, standing for \<open>urlparse(u).netloc\<close>.\<close>

definition demo_netloc :: "string \<Rightarrow> string option" where
  "demo_netloc u = Some (takeWhile (\<lambda>c. c \<noteq> CHR ''/'') (drop 7 u))"

definition demo_world :: world where
  "demo_world =
     \<lparr>site = demo_site, inspect = (\<lambda>n u. Inr []), netloc = demo_netloc,
      set_order = remdups, now_start = ''t0'', now_end = ''t1''\<rparr>"

definition seo_bug :: "string \<Rightarrow> Bug" where
  "seo_bug u =
     \<lparr>url = u, category = ''seo'', severity = MEDIUM, title = ''Missing page <title>'',
      description = ''no title'', selector = None, screenshot_path = None, extra = []\<rparr>"

text \<open>The console detector, a detector that always raises, and one that always
  reports a bug.\<close>

definition demo_detectors :: "BugDetector list" where
  "demo_detectors =
     [ConsoleErrorDetector [],
      PageDetector ''broken'' (\<lambda>u. Inl ''kaput''),
      PageDetector ''seo'' (\<lambda>u. Inr [seo_bug u])]"

text \<open>A crawler about to pop \<open>u\<close>, and the same crawler after the pop.\<close>

definition about_to_visit :: "string \<Rightarrow> VibeCrawler" where
  "about_to_visit u = (init ''http://a.com'' 20 demo_detectors)\<lparr>queue := [u]\<rparr>"

definition popped :: "string \<Rightarrow> VibeCrawler" where
  "popped u = (init ''http://a.com'' 20 demo_detectors)\<lparr>queue := [], visited := {|u|}\<rparr>"

subsection \<open>Failing detectors\<close>

text \<open>
  C2. On a page that loads, every detector whose \<open>detect\<close> raises adds exactly one
  entry \<open>Detector <name> failed on <url>: <e>\<close> to the errors, in detector order, and
  the bugs returned by all the other detectors, before and after it, are in the
  result; \<open>_crawl_page\<close> returns normally, so the loop goes on.
\<close>

theorem detector_failure_isolated:
  assumes "goto (site w u) = Inr resp"
  shows "errors (result (crawl_page w c u)) = errors (result c) @ detector_errors u (listening w c u)
       \<and> bugs (result (crawl_page w c u)) =
           bugs (status_check u resp (result c)) @ detector_bugs u (listening w c u)"
  using assms
  by (simp add: crawl_page_loaded_result run_detectors_result status_check_def split: option.splits)

theorem detector_failure_isolated_witness:
  "goto (site demo_world ''http://a.com/z'') = Inr (Some 200)
   \<and> errors (result (crawl_page demo_world (popped ''http://a.com/z'') ''http://a.com/z'')) =
       [''Detector broken failed on http://a.com/z: kaput'']
   \<and> bugs (result (crawl_page demo_world (popped ''http://a.com/z'') ''http://a.com/z'')) =
       [seo_bug ''http://a.com/z'']"
proof -
  have h: "goto (site demo_world ''http://a.com/z'') = Inr (Some 200)"
    by code_simp
  have e: "errors (result (popped ''http://a.com/z''))
             @ detector_errors ''http://a.com/z''
                 (listening demo_world (popped ''http://a.com/z'') ''http://a.com/z'') =
           [''Detector broken failed on http://a.com/z: kaput'']"
    by code_simp
  have b: "bugs (status_check ''http://a.com/z'' (Some 200) (result (popped ''http://a.com/z'')))
             @ detector_bugs ''http://a.com/z''
                 (listening demo_world (popped ''http://a.com/z'') ''http://a.com/z'') =
           [seo_bug ''http://a.com/z'']"
    by code_simp
  from detector_failure_isolated [OF h, of "popped ''http://a.com/z''"] h e b
  show ?thesis by simp
qed

subsection \<open>Failing navigation\<close>

text \<open>
  C5. When navigation to a page raises, \<open>_crawl_page\<close> appends the one error
  \<open>Failed to load <url>: <cause>\<close> and returns: no \<open>detect\<close> is called (the detector
  instances are as the listeners left them and the bugs are unchanged), nothing is
  offered to the queue, and the loop of \<open>run\<close> goes on from that state.
\<close>

theorem navigation_failure:
  assumes "goto (site w u) = Inl e"
  shows "crawl_page w c u =
           c\<lparr>visiting := visiting c @ [u], detectors := listening w c u,
             result := (result c)\<lparr>errors := errors (result c) @ [load_error u e]\<rparr>\<rparr>
       \<and> (loop_cond c0 \<and> dequeue c0 = (Some u, c) \<longrightarrow>
            run_loop w c0 =
              run_loop w
                (c\<lparr>visiting := visiting c @ [u], detectors := listening w c u,
                   result := (result c)\<lparr>errors := errors (result c) @ [load_error u e]\<rparr>\<rparr>))"
proof -
  have fail: "crawl_page w c u =
           c\<lparr>visiting := visiting c @ [u], detectors := listening w c u,
             result := (result c)\<lparr>errors := errors (result c) @ [load_error u e]\<rparr>\<rparr>"
    using assms by (rule crawl_page_failed)
  have "run_loop w c0 = run_loop w (crawl_page w c u)"
    if "loop_cond c0" and "dequeue c0 = (Some u, c)"
    using that run_loop_step [of c0 w] by (simp add: loop_step_def)
  with fail show ?thesis by simp
qed

theorem navigation_failure_witness:
  "goto (site demo_world ''http://a.com/x'') = Inl ''Timeout''
   \<and> loop_cond (about_to_visit ''http://a.com/x'')
   \<and> dequeue (about_to_visit ''http://a.com/x'') = (Some ''http://a.com/x'', popped ''http://a.com/x'')
   \<and> errors (result (crawl_page demo_world (popped ''http://a.com/x'') ''http://a.com/x'')) =
       [''Failed to load http://a.com/x: Timeout'']
   \<and> bugs (result (crawl_page demo_world (popped ''http://a.com/x'') ''http://a.com/x'')) = []
   \<and> errors (result (run_loop demo_world (about_to_visit ''http://a.com/x''))) =
       [''Failed to load http://a.com/x: Timeout'']"
proof -
  let ?u = "''http://a.com/x''"
  let ?after = "(popped ?u)\<lparr>visiting := visiting (popped ?u) @ [?u],
      detectors := listening demo_world (popped ?u) ?u,
      result := (result (popped ?u))\<lparr>errors := errors (result (popped ?u)) @ [load_error ?u ''Timeout'']\<rparr>\<rparr>"
  have h: "goto (site demo_world ?u) = Inl ''Timeout''"
    by code_simp
  have lc: "loop_cond (about_to_visit ?u)"
    by code_simp
  have dq: "dequeue (about_to_visit ?u) = (Some ?u, popped ?u)"
    by (simp add: dequeue_def about_to_visit_def popped_def init_def)
  have e: "errors (result ?after) = [''Failed to load http://a.com/x: Timeout'']"
    by code_simp
  have b: "bugs (result ?after) = []"
    by code_simp
  have r: "errors (result (run_loop demo_world ?after)) = [''Failed to load http://a.com/x: Timeout'']"
    by code_simp
  from navigation_failure [OF h, of "popped ?u" "about_to_visit ?u"] lc dq
  have "crawl_page demo_world (popped ?u) ?u = ?after"
    and "run_loop demo_world (about_to_visit ?u) = run_loop demo_world ?after"
    by simp_all
  with h lc dq e b r show ?thesis by simp
qed

subsection \<open>The HTTP status of the page\<close>

text \<open>
  C6. When navigation answers with a status of 400 or more, the bugs that
  \<open>_crawl_page\<close> adds for the page are one bug with the page's URL, category \<open>http\<close>,
  severity high and title \<open>HTTP <status>\<close>, followed by the bugs of the detectors.
\<close>

theorem http_status_bug:
  assumes "goto (site w u) = Inr (Some st)" and "400 \<le> st"
  shows "bugs (result (crawl_page w c u)) =
           bugs (result c) @ [http_bug u st] @ detector_bugs u (listening w c u)
       \<and> url (http_bug u st) = u \<and> category (http_bug u st) = ''http''
       \<and> severity (http_bug u st) = HIGH \<and> title (http_bug u st) = ''HTTP '' @ str_int st"
  using assms
  by (simp add: crawl_page_loaded_result run_detectors_result status_check_def http_bug_def)

theorem http_status_bug_witness:
  "goto (site demo_world ''http://a.com/y'') = Inr (Some 404) \<and> (400::int) \<le> 404
   \<and> map title (bugs (result (crawl_page demo_world (popped ''http://a.com/y'') ''http://a.com/y''))) =
       [''HTTP 404'', ''JS console.error'', ''Missing page <title>'']
   \<and> map category (bugs (result (crawl_page demo_world (popped ''http://a.com/y'') ''http://a.com/y''))) =
       [''http'', ''javascript'', ''seo'']"
proof -
  let ?u = "''http://a.com/y''"
  have h: "goto (site demo_world ?u) = Inr (Some 404)"
    by code_simp
  have t: "map title (bugs (result (popped ?u)) @ [http_bug ?u 404]
             @ detector_bugs ?u (listening demo_world (popped ?u) ?u)) =
           [''HTTP 404'', ''JS console.error'', ''Missing page <title>'']"
    by code_simp
  have k: "map category (bugs (result (popped ?u)) @ [http_bug ?u 404]
             @ detector_bugs ?u (listening demo_world (popped ?u) ?u)) =
           [''http'', ''javascript'', ''seo'']"
    by code_simp
  from http_status_bug [OF h, of "popped ?u"] h t k
  show ?thesis by simp
qed

subsection \<open>Navigation without a response\<close>

text \<open>
  C10. When navigation returns no response object, the status test is false without
  reading a status: \<open>_crawl_page\<close> adds no HTTP bug, and every detector is run (each
  instance has been through \<open>detect\<close>, and the bugs and errors added are those of the
  detectors).
\<close>

theorem no_response_no_http_bug:
  assumes "goto (site w u) = Inr None"
  shows "bugs (result (crawl_page w c u)) = bugs (result c) @ detector_bugs u (listening w c u)
       \<and> errors (result (crawl_page w c u)) =
           errors (result c) @ detector_errors u (listening w c u)
       \<and> detectors (crawl_page w c u) = map (\<lambda>d. snd (detect d u)) (listening w c u)"
  using assms
  by (simp add: crawl_page_loaded_result run_detectors_result run_detectors_instances
      status_check_def)

theorem no_response_no_http_bug_witness:
  "goto (site demo_world ''http://a.com/n'') = Inr None
   \<and> bugs (result (crawl_page demo_world (popped ''http://a.com/n'') ''http://a.com/n'')) =
       [seo_bug ''http://a.com/n'']
   \<and> errors (result (crawl_page demo_world (popped ''http://a.com/n'') ''http://a.com/n'')) =
       [''Detector broken failed on http://a.com/n: kaput'']"
proof -
  let ?u = "''http://a.com/n''"
  have h: "goto (site demo_world ?u) = Inr None"
    by code_simp
  have b: "bugs (result (popped ?u)) @ detector_bugs ?u (listening demo_world (popped ?u) ?u) =
           [seo_bug ?u]"
    by code_simp
  have e: "errors (result (popped ?u)) @ detector_errors ?u (listening demo_world (popped ?u) ?u) =
           [''Detector broken failed on http://a.com/n: kaput'']"
    by code_simp
  from no_response_no_http_bug [OF h, of "popped ?u"] h b e
  show ?thesis by simp
qed

section \<open>The frontier\<close>

text \<open>
  The two invariants of the run loop. \<open>frontier_inv\<close>: no queued URL is visited, and
  no URL is queued twice. \<open>log_inv\<close>: the visited set is the set of URLs handed to
  \<open>_crawl_page\<close> so far, and none was handed over twice.
\<close>

definition frontier_inv :: "VibeCrawler \<Rightarrow> bool" where
  "frontier_inv c = (fset (visited c) \<inter> set (queue c) = {} \<and> distinct (queue c))"

definition log_inv :: "VibeCrawler \<Rightarrow> bool" where
  "log_inv c = (fset (visited c) = set (visiting c) \<and> distinct (visiting c))"

lemma offer_frontier_inv: "frontier_inv c \<Longrightarrow> frontier_inv (offer ls c)"
proof (induction ls arbitrary: c)
  case Nil
  then show ?case by simp
next
  case (Cons l ls)
  have "frontier_inv (if l |\<notin>| visited c \<and> l \<notin> set (queue c) then c\<lparr>queue := queue c @ [l]\<rparr> else c)"
    using Cons.prems by (auto simp: frontier_inv_def)
  then show ?case using Cons.IH by simp
qed

lemma crawl_page_frontier_inv:
  assumes "frontier_inv c"
  shows "frontier_inv (crawl_page w c u)"
proof (cases "goto (site w u)")
  case (Inl e)
  with assms show ?thesis by (simp add: crawl_page_def Let_def frontier_inv_def)
next
  case (Inr resp)
  obtain ds r where rd:
    "run_detectors u (deliver (fired (site w u)) (detectors c)) (status_check u resp (result c)) = (ds, r)"
    by (cases "run_detectors u (deliver (fired (site w u)) (detectors c)) (status_check u resp (result c))")
  let ?c2 = "c\<lparr>visiting := visiting c @ [u], detectors := ds, result := r\<rparr>"
  have c2: "frontier_inv ?c2" using assms by (simp add: frontier_inv_def)
  show ?thesis
  proof (cases "discover_links w ?c2 (site w u)")
    case None
    with Inr rd c2 show ?thesis by (simp add: crawl_page_def Let_def)
  next
    case (Some ls)
    with Inr rd have "crawl_page w c u = offer ls ?c2" by (simp add: crawl_page_def Let_def)
    with offer_frontier_inv [OF c2, of ls] show ?thesis by simp
  qed
qed

lemma dequeue_frontier_inv:
  assumes "frontier_inv c"
  shows "frontier_inv (snd (dequeue c))"
  using assms by (cases "queue c") (auto simp: dequeue_def frontier_inv_def)

lemma dequeue_visiting [simp]: "visiting (snd (dequeue c)) = visiting c"
  by (cases "queue c") (simp_all add: dequeue_def)

lemma dequeue_None: "fst (dequeue c) = None \<Longrightarrow> visited (snd (dequeue c)) = visited c"
  by (cases "queue c") (simp_all add: dequeue_def split: if_splits)

lemma dequeue_Some:
  "fst (dequeue c) = Some u \<Longrightarrow> visited (snd (dequeue c)) = finsert u (visited c) \<and> u |\<notin>| visited c"
  by (cases "queue c") (simp_all add: dequeue_def split: if_splits)

lemma loop_step_cases:
  "loop_step w c = c
   \<or> (fst (dequeue c) = None \<and> loop_step w c = snd (dequeue c))
   \<or> (\<exists>u. fst (dequeue c) = Some u \<and> loop_step w c = crawl_page w (snd (dequeue c)) u)"
  by (cases "dequeue c") (auto simp: loop_step_def split: option.splits)

lemma loop_step_frontier_inv:
  assumes "frontier_inv c"
  shows "frontier_inv (loop_step w c)"
  using loop_step_cases [of w c] assms dequeue_frontier_inv [OF assms]
  by (auto intro: crawl_page_frontier_inv)

lemma loop_step_log_inv:
  assumes "log_inv c"
  shows "log_inv (loop_step w c)"
proof -
  consider "loop_step w c = c"
    | "fst (dequeue c) = None" "loop_step w c = snd (dequeue c)"
    | u where "fst (dequeue c) = Some u" "loop_step w c = crawl_page w (snd (dequeue c)) u"
    using loop_step_cases [of w c] by (elim disjE conjE exE) simp_all
  then show ?thesis
  proof cases
    case 1
    with assms show ?thesis by simp
  next
    case 2
    with assms dequeue_None [of c] show ?thesis by (simp add: log_inv_def)
  next
    case 3
    with assms dequeue_Some [of c u] show ?thesis by (auto simp: log_inv_def)
  qed
qed

definition turns :: "world \<Rightarrow> string \<Rightarrow> int \<Rightarrow> BugDetector list \<Rightarrow> nat \<Rightarrow> VibeCrawler" where
  "turns w start maxp dets n = (loop_step w ^^ n) (enqueue_seed w start maxp dets)"

lemma enqueue_seed_inv:
  "frontier_inv (enqueue_seed w start maxp dets)" "log_inv (enqueue_seed w start maxp dets)"
  by (simp_all add: enqueue_seed_def init_def frontier_inv_def log_inv_def Let_def)

lemma turns_inv: "frontier_inv (turns w start maxp dets n) \<and> log_inv (turns w start maxp dets n)"
  by (induction n) (simp_all add: turns_def enqueue_seed_inv loop_step_frontier_inv loop_step_log_inv)

lemma run_loop_funpow: "\<exists>n. run_loop w c = (loop_step w ^^ n) c"
proof (induction w c rule: run_loop.induct)
  case (1 w c)
  show ?case
  proof (cases "loop_cond c")
    case True
    from 1 [OF True] obtain n where "run_loop w (loop_step w c) = (loop_step w ^^ n) (loop_step w c)" ..
    with True have "run_loop w c = (loop_step w ^^ Suc n) c"
      by (simp add: run_loop_step funpow_swap1)
    then show ?thesis ..
  next
    case False
    then have "run_loop w c = (loop_step w ^^ 0) c" by (simp add: run_loop.simps)
    then show ?thesis ..
  qed
qed

text \<open>
  C1. \<open>turns w start maxp dets n\<close> is the crawler after the seed was enqueued and the
  loop of \<open>run\<close> took \<open>n\<close> turns. In every such state, and in the state between the
  dequeue and the page visit of the next turn, the visited set and the queue are
  disjoint; the visited set is exactly the set of URLs dequeued for processing so far,
  and no URL was dequeued for processing twice. Offering links to the queue leaves the
  visited set as it is. The state in which \<open>run\<close> leaves the loop is one of these
  states, so the same holds when the run ends.
\<close>

theorem frontier_invariant:
  "fset (visited (turns w start maxp dets n)) \<inter> set (queue (turns w start maxp dets n)) = {}
   \<and> fset (visited (snd (dequeue (turns w start maxp dets n))))
       \<inter> set (queue (snd (dequeue (turns w start maxp dets n)))) = {}
   \<and> fset (visited (turns w start maxp dets n)) = set (visiting (turns w start maxp dets n))
   \<and> distinct (visiting (turns w start maxp dets n))
   \<and> visited (offer ls c) = visited c
   \<and> (\<exists>k. run_loop w (enqueue_seed w start maxp dets) = turns w start maxp dets k)
   \<and> fset (visited (run_state w start maxp dets)) = set (visiting (run_state w start maxp dets))
   \<and> distinct (visiting (run_state w start maxp dets))"
proof -
  have inv: "frontier_inv (turns w start maxp dets m) \<and> log_inv (turns w start maxp dets m)" for m
    by (rule turns_inv)
  obtain k where k: "run_loop w (enqueue_seed w start maxp dets) = turns w start maxp dets k"
    using run_loop_funpow [of w "enqueue_seed w start maxp dets"] by (auto simp: turns_def)
  have fin: "visited (run_state w start maxp dets) = visited (turns w start maxp dets k)"
    "visiting (run_state w start maxp dets) = visiting (turns w start maxp dets k)"
    by (simp_all add: run_state_def Let_def k)
  from inv [of n] dequeue_frontier_inv [of "turns w start maxp dets n"] inv [of k] k fin
  show ?thesis
    by (auto simp: frontier_inv_def log_inv_def)
qed


subsection \<open>The page budget\<close>

lemma loop_step_stay: "\<not> loop_cond c \<Longrightarrow> loop_step w c = c"
  by (simp add: loop_step_def)

lemma run_loop_stay: "\<not> loop_cond c \<Longrightarrow> run_loop w c = c"
  by (simp add: run_loop.simps)

lemma loop_step_budget:
  assumes "int (fcard (visited c)) \<le> max 0 (max_pages c)"
  shows "int (fcard (visited (loop_step w c))) \<le> max 0 (max_pages c)"
proof (cases "loop_cond c")
  case False
  with assms show ?thesis by (simp add: loop_step_stay)
next
  case True
  then have lt: "int (fcard (visited c)) < max_pages c" by (simp add: loop_cond_def)
  show ?thesis
  proof (cases "fst (dequeue c)")
    case None
    with True have "loop_step w c = snd (dequeue c)"
      by (cases "dequeue c") (simp add: loop_step_def)
    with None dequeue_None [of c] assms show ?thesis by simp
  next
    case (Some u)
    with True have "loop_step w c = crawl_page w (snd (dequeue c)) u"
      by (cases "dequeue c") (simp add: loop_step_def)
    with Some dequeue_Some [of c u] lt show ?thesis by (simp add: fcard_finsert_if)
  qed
qed

lemma funpow_budget:
  assumes "int (fcard (visited c)) \<le> max 0 (max_pages c)"
  shows "int (fcard (visited ((loop_step w ^^ n) c))) \<le> max 0 (max_pages c)
         \<and> max_pages ((loop_step w ^^ n) c) = max_pages c"
proof (induction n)
  case 0
  with assms show ?case by simp
next
  case (Suc n)
  then show ?case using loop_step_budget [of "(loop_step w ^^ n) c" w] by simp
qed

lemma run_loop_budget:
  assumes "int (fcard (visited c)) \<le> max 0 (max_pages c)"
  shows "int (fcard (visited (run_loop w c))) \<le> max 0 (max_pages c)"
proof -
  obtain n where "run_loop w c = (loop_step w ^^ n) c"
    using run_loop_funpow [of w c] ..
  with funpow_budget [OF assms, where w = w and n = n] show ?thesis by simp
qed

lemma run_one_page:
  "run_loop w (enqueue_seed w start 1 dets) =
     crawl_page w ((enqueue_seed w start 1 dets)\<lparr>queue := [], visited := {|rstrip_slash start|}\<rparr>)
       (rstrip_slash start)"
proof -
  let ?c0 = "enqueue_seed w start 1 dets"
  let ?c1 = "?c0\<lparr>queue := [], visited := {|rstrip_slash start|}\<rparr>"
  have lc: "loop_cond ?c0"
    by (simp add: loop_cond_def enqueue_seed_def init_def Let_def)
  have dq: "dequeue ?c0 = (Some (rstrip_slash start), ?c1)"
    by (simp add: dequeue_def enqueue_seed_def init_def Let_def)
  from lc dq have st: "loop_step w ?c0 = crawl_page w ?c1 (rstrip_slash start)"
    by (simp add: loop_step_def)
  have "\<not> loop_cond (crawl_page w ?c1 (rstrip_slash start))"
    by (simp add: loop_cond_def enqueue_seed_def init_def Let_def)
  then have "run_loop w (crawl_page w ?c1 (rstrip_slash start)) = crawl_page w ?c1 (rstrip_slash start)"
    by (rule run_loop_stay)
  with lc st show ?thesis by (simp add: run_loop_step)
qed

text \<open>
  C7 (as amended). The number of pages visited is at most \<open>max_pages\<close> when
  \<open>max_pages\<close> is not negative (in general at most \<open>max 0 max_pages\<close>), and it is the
  size of the visited set; once the visited set has reached \<open>max_pages\<close> the loop
  takes no further URL, whatever is still queued; with \<open>max_pages = 1\<close> exactly the
  seed, stripped of trailing slashes, is visited.
\<close>

theorem page_budget:
  "int (pages_visited (run w start maxp dets)) \<le> max 0 maxp
   \<and> pages_visited (run w start maxp dets) = fcard (visited (run_state w start maxp dets))
   \<and> (max_pages c \<le> int (fcard (visited c)) \<longrightarrow> loop_step w c = c \<and> run_loop w c = c)
   \<and> visiting (run_state w start 1 dets) = [rstrip_slash start]
   \<and> visited (run_state w start 1 dets) = {|rstrip_slash start|}
   \<and> pages_visited (run w start 1 dets) = 1"
proof -
  have "int (fcard (visited (enqueue_seed w start maxp dets))) \<le> max 0 (max_pages (enqueue_seed w start maxp dets))"
    by (simp add: enqueue_seed_def init_def Let_def fcard_fempty)
  from run_loop_budget [OF this, of w]
  have a: "int (pages_visited (run w start maxp dets)) \<le> max 0 maxp"
    by (simp add: run_def run_state_def Let_def enqueue_seed_def init_def)
  have b: "pages_visited (run w start maxp dets) = fcard (visited (run_state w start maxp dets))"
    by (simp add: run_def run_state_def Let_def)
  have c: "loop_step w c = c \<and> run_loop w c = c" if "max_pages c \<le> int (fcard (visited c))"
    using that by (simp add: loop_step_stay run_loop_stay loop_cond_def)
  have d: "visiting (run_state w start 1 dets) = [rstrip_slash start]"
    "visited (run_state w start 1 dets) = {|rstrip_slash start|}"
    "pages_visited (run w start 1 dets) = 1"
    by (simp_all add: run_def run_state_def Let_def run_one_page)
      (simp_all add: enqueue_seed_def init_def Let_def fcard_finsert_if fcard_fempty)
  from a b c d show ?thesis by blast
qed

text \<open>A crawler whose budget of one page is spent while a URL is still queued.\<close>

definition budget_spent :: VibeCrawler where
  "budget_spent = (init ''http://a.com'' 1 demo_detectors)\<lparr>queue := [''http://a.com/y''], visited := {|''http://a.com''|}\<rparr>"

theorem page_budget_witness:
  "max_pages budget_spent \<le> int (fcard (visited budget_spent))
   \<and> queue (run_loop demo_world budget_spent) = [''http://a.com/y'']
   \<and> int (pages_visited (run demo_world ''http://a.com/'' 2 demo_detectors)) \<le> 2
   \<and> visiting (run_state demo_world ''http://a.com/'' 1 demo_detectors) = [''http://a.com'']"
proof -
  have h: "max_pages budget_spent \<le> int (fcard (visited budget_spent))"
    by code_simp
  have q: "queue budget_spent = [''http://a.com/y'']"
    by (simp add: budget_spent_def)
  have s: "rstrip_slash ''http://a.com/'' = ''http://a.com''"
    by code_simp
  from page_budget [of demo_world "''http://a.com/''" 2 demo_detectors budget_spent]
       page_budget [of demo_world "''http://a.com/''" 1 demo_detectors budget_spent] h q s
  show ?thesis by simp
qed

text \<open>With \<open>max_pages = -1\<close> no page is visited, and 0 exceeds -1.\<close>

theorem page_budget_counterexample:
  "\<not> int (pages_visited (run demo_world ''http://a.com/'' (- 1) demo_detectors)) \<le> - 1"
  by code_simp

section \<open>The order of a page's links\<close>

text \<open>
  The loop at the end of \<open>_crawl_page\<close> already drops a link that is visited or
  queued, so it needs no de-duplicated input: whatever list it is offered, the queue
  keeps its old entries in place and gains exactly the offered links that were
  neither visited nor queued.
\<close>

lemma offer_queue_set:
  "set (queue (offer ls c)) = set (queue c) \<union> {l \<in> set ls. l |\<notin>| visited c}"
proof (induction ls arbitrary: c)
  case Nil
  show ?case by simp
next
  case (Cons l ls)
  show ?case
    unfolding offer.simps Cons by auto
qed

lemma offer_queue_prefix: "take (length (queue c)) (queue (offer ls c)) = queue c"
proof (induction ls arbitrary: c)
  case Nil
  show ?case by simp
next
  case (Cons l ls)
  show ?case
  proof (cases "l |\<notin>| visited c \<and> l \<notin> set (queue c)")
    case True
    from Cons [of "c\<lparr>queue := queue c @ [l]\<rparr>"]
    have "take (length (queue c)) (take (Suc (length (queue c)))
            (queue (offer ls (c\<lparr>queue := queue c @ [l]\<rparr>)))) =
          take (length (queue c)) (queue c @ [l])"
      by simp
    with True show ?thesis by (simp add: min_def)
  next
    case False
    with Cons [of c] show ?thesis by auto
  qed
qed

text \<open>The example world with a set that enumerates the other way round.\<close>

definition reversed_world :: world where
  "reversed_world = demo_world\<lparr>set_order := rev \<circ> remdups\<rparr>"

text \<open>
  C4 (the code at the failing input). \<open>_discover_links\<close> returns
  \<open>list(set(links))\<close>, so the links of a page reach the queue in the order in which
  the set enumerates them, not in the order of the page. On the example site the seed
  page lists \<open>/x\<close> before \<open>/y\<close>. With one enumeration the queue after the first
  page is \<open>/y\<close>, \<open>/x\<close>, with the other \<open>/x\<close>, \<open>/y\<close>; both enumerations are
  what a set may do. With a budget of two pages the first run visits \<open>/y\<close> (a 404),
  the second \<open>/x\<close> (a failed navigation), and the bugs and the errors of the two
  runs differ, on the same site with the same configuration.
\<close>

theorem set_order_decides_crawl:
  "valid_set_order (set_order demo_world) \<and> valid_set_order (set_order reversed_world)
   \<and> site demo_world = site reversed_world \<and> inspect demo_world = inspect reversed_world
   \<and> netloc demo_world = netloc reversed_world
   \<and> hrefs (site demo_world ''http://a.com'') =
       Some [''http://a.com/x'', ''http://a.com/y/#top'', ''http://b.org/z'', ''http://a.com/x/'']
   \<and> queue (turns demo_world ''http://a.com/'' 2 demo_detectors (Suc 0)) =
       [''http://a.com/y'', ''http://a.com/x'']
   \<and> queue (turns reversed_world ''http://a.com/'' 2 demo_detectors (Suc 0)) =
       [''http://a.com/x'', ''http://a.com/y'']
   \<and> visiting (run_state demo_world ''http://a.com/'' 2 demo_detectors) =
       [''http://a.com'', ''http://a.com/y'']
   \<and> visiting (run_state reversed_world ''http://a.com/'' 2 demo_detectors) =
       [''http://a.com'', ''http://a.com/x'']
   \<and> map title (bugs (run demo_world ''http://a.com/'' 2 demo_detectors)) =
       [''Missing page <title>'', ''HTTP 404'', ''JS console.error'', ''Missing page <title>'']
   \<and> map title (bugs (run reversed_world ''http://a.com/'' 2 demo_detectors)) =
       [''Missing page <title>'']
   \<and> errors (run demo_world ''http://a.com/'' 2 demo_detectors) =
       [''Detector broken failed on http://a.com: kaput'',
        ''Detector broken failed on http://a.com/y: kaput'']
   \<and> errors (run reversed_world ''http://a.com/'' 2 demo_detectors) =
       [''Detector broken failed on http://a.com: kaput'',
        ''Failed to load http://a.com/x: Timeout'']"
proof -
  have a: "valid_set_order (set_order demo_world)" "valid_set_order (set_order reversed_world)"
    by (simp_all add: valid_set_order_def demo_world_def reversed_world_def)
  have b: "site demo_world = site reversed_world" "inspect demo_world = inspect reversed_world"
    "netloc demo_world = netloc reversed_world"
    by (simp_all add: reversed_world_def)
  have h: "hrefs (site demo_world ''http://a.com'') =
       Some [''http://a.com/x'', ''http://a.com/y/#top'', ''http://b.org/z'', ''http://a.com/x/'']"
    by code_simp
  have q: "queue (turns demo_world ''http://a.com/'' 2 demo_detectors (Suc 0)) =
       [''http://a.com/y'', ''http://a.com/x'']"
    "queue (turns reversed_world ''http://a.com/'' 2 demo_detectors (Suc 0)) =
       [''http://a.com/x'', ''http://a.com/y'']"
    by code_simp+
  have v: "visiting (run_state demo_world ''http://a.com/'' 2 demo_detectors) =
       [''http://a.com'', ''http://a.com/y'']"
    "visiting (run_state reversed_world ''http://a.com/'' 2 demo_detectors) =
       [''http://a.com'', ''http://a.com/x'']"
    by code_simp+
  have g: "map title (bugs (run demo_world ''http://a.com/'' 2 demo_detectors)) =
       [''Missing page <title>'', ''HTTP 404'', ''JS console.error'', ''Missing page <title>'']"
    "map title (bugs (run reversed_world ''http://a.com/'' 2 demo_detectors)) =
       [''Missing page <title>'']"
    by code_simp+
  have e: "errors (run demo_world ''http://a.com/'' 2 demo_detectors) =
       [''Detector broken failed on http://a.com: kaput'',
        ''Detector broken failed on http://a.com/y: kaput'']"
    "errors (run reversed_world ''http://a.com/'' 2 demo_detectors) =
       [''Detector broken failed on http://a.com: kaput'',
        ''Failed to load http://a.com/x: Timeout'']"
    by code_simp+
  from a b h q v g e show ?thesis by simp
qed

section \<open>Normalisation of the seed\<close>

text \<open>A site where every page links to \<open>http://a.com/p#top\<close>.\<close>

definition anchor_world :: world where
  "anchor_world =
     \<lparr>site = (\<lambda>u. \<lparr>goto = Inr (Some 200), fired = [], hrefs = Some [''http://a.com/p#top'']\<rparr>),
      inspect = (\<lambda>n u. Inr []), netloc = demo_netloc, set_order = remdups,
      now_start = ''t0'', now_end = ''t1''\<rparr>"

text \<open>
  C3 (the code at the failing input). \<open>run\<close> strips trailing slashes from the seed
  but not its fragment: started at \<open>http://a.com/p#top\<close>, the crawler queues and
  visits that string, then discovers the link to itself, which \<open>_discover_links\<close>
  normalises to \<open>http://a.com/p\<close>, and visits the same page again: two frontier
  entries that differ in the fragment only.
\<close>

theorem seed_fragment_kept:
  "queue (enqueue_seed anchor_world ''http://a.com/p#top'' 20 []) = [''http://a.com/p#top'']
   \<and> split_hash_0 ''http://a.com/p#top'' = ''http://a.com/p''
   \<and> visiting (run_state anchor_world ''http://a.com/p#top'' 20 []) =
       [''http://a.com/p#top'', ''http://a.com/p'']
   \<and> pages_visited (run anchor_world ''http://a.com/p#top'' 20 []) = 2"
  by code_simp

section \<open>The console buffer across pages\<close>

lemma console_detect_clears: "snd (detect (ConsoleErrorDetector errs) u) = ConsoleErrorDetector []"
  by simp

text \<open>
  C8 (the code at the failing input). \<open>detect\<close> of the console detector empties the
  buffer, but a page whose navigation fails never reaches \<open>detect\<close>: on the example
  site the script error \<open>boom\<close> thrown by \<open>/x\<close>, whose navigation times out, is
  reported in a bug with the URL of the next page, \<open>/n\<close>, which fired no event.
\<close>

theorem console_buffer_leak:
  "goto (site demo_world ''http://a.com/x'') = Inl ''Timeout''
   \<and> fired (site demo_world ''http://a.com/x'') = [PageError ''boom'']
   \<and> fired (site demo_world ''http://a.com/n'') = []
   \<and> visiting (run_state demo_world ''http://a.com/'' 20 [ConsoleErrorDetector []]) =
       [''http://a.com'', ''http://a.com/y'', ''http://a.com/x'', ''http://a.com/n'']
   \<and> map (\<lambda>b. (url b, description b))
         (bugs (run demo_world ''http://a.com/'' 20 [ConsoleErrorDetector []])) =
       [(''http://a.com/y'', ''Page returned status 404''),
        (''http://a.com/y'', ''oops''),
        (''http://a.com/n'', ''boom'')]"
  by code_simp

end
